theory Spec2Isabelle
  imports Main
begin

section \<open>Text and regular expressions\<close>

text \<open>
  The patcher of \<^verbatim>\<open>src/fixes/auto-run-fix/patch.js\<close> works on the decoded text of a
  bundle file. A text is a \<^typ>\<open>string\<close>; each \<^typ>\<open>char\<close> stands for one code unit of
  the JavaScript string, so \<open>length\<close>, \<open>take\<close> and \<open>drop\<close> count what
  \<^verbatim>\<open>substring\<close> and the quantifier bounds of a regular expression count.

  The regular expressions of the source use literals, greedy quantifiers over one
  character class, capture groups around such a quantifier, back-references and the word
  boundary. A regular expression is the list of these tokens in the order the source
  writes them.
\<close>

datatype cclass = Word | WordComma | NotBrace | Space

definition is_word :: "char \<Rightarrow> bool" where
  \<comment> \<open>the class \<^verbatim>\<open>\w\<close>: \<^verbatim>\<open>[A-Za-z0-9_]\<close>\<close>
  "is_word c =
     (let n = (of_char c :: nat)
      in (48 \<le> n \<and> n \<le> 57) \<or> (65 \<le> n \<and> n \<le> 90) \<or> n = 95 \<or> (97 \<le> n \<and> n \<le> 122))"

definition is_space :: "char \<Rightarrow> bool" where
  \<comment> \<open>the class \<^verbatim>\<open>\s\<close> on the code units below 256: tab, line feed, vertical tab, form feed,
      carriage return, space and the no-break space\<close>
  "is_space c = (let n = (of_char c :: nat) in (9 \<le> n \<and> n \<le> 13) \<or> n = 32 \<or> n = 160)"

fun in_class :: "cclass \<Rightarrow> char \<Rightarrow> bool" where
  "in_class Word c = is_word c"
| "in_class WordComma c = (is_word c \<or> c = CHR '','')"
| "in_class NotBrace c = (c \<noteq> CHR ''}'')"
| "in_class Space c = is_space c"

datatype tok =
    Lit string
  | Rep cclass nat "nat option"
  | Grp cclass nat "nat option"
  | Ref nat
  | WordB

type_synonym regex = "tok list"

fun starts_with :: "string \<Rightarrow> string \<Rightarrow> bool" where
  \<comment> \<open>the text \<open>s\<close> begins with \<open>t\<close>\<close>
  "starts_with s [] = True"
| "starts_with [] (d # t) = False"
| "starts_with (c # s) (d # t) = (if c = d then starts_with s t else False)"

fun run_len :: "cclass \<Rightarrow> nat option \<Rightarrow> string \<Rightarrow> nat" where
  \<comment> \<open>how many characters a greedy quantifier takes at first: the leading characters of
      the class, at most the upper bound\<close>
  "run_len c None s = length (takeWhile (in_class c) s)"
| "run_len c (Some h) s = min h (length (takeWhile (in_class c) s))"

fun last_of :: "char option \<Rightarrow> string \<Rightarrow> char option" where
  \<comment> \<open>the character before the current position, once \<open>w\<close> has been consumed\<close>
  "last_of prev [] = prev"
| "last_of prev (c # w) = Some (last (c # w))"

fun at_boundary :: "char option \<Rightarrow> string \<Rightarrow> bool" where
  \<comment> \<open>\<^verbatim>\<open>\b\<close>: exactly one of the characters before and after the position is a word
      character; outside the text counts as not a word character\<close>
  "at_boundary prev s =
     ((case prev of None \<Rightarrow> False | Some c \<Rightarrow> is_word c)
        \<noteq> (case s of [] \<Rightarrow> False | c # _ \<Rightarrow> is_word c))"

fun first_some :: "('a \<Rightarrow> 'b option) \<Rightarrow> 'a list \<Rightarrow> 'b option" where
  "first_some f [] = None"
| "first_some f (x # xs) = (case f x of Some y \<Rightarrow> Some y | None \<Rightarrow> first_some f xs)"

lemma first_some_cong [fundef_cong]:
  "xs = ys \<Longrightarrow> (\<And>x. x \<in> set ys \<Longrightarrow> f x = g x) \<Longrightarrow> first_some f xs = first_some g ys"
  by (induction ys arbitrary: xs) (auto split: option.splits)

definition group_text :: "string list \<Rightarrow> nat \<Rightarrow> string" where
  \<comment> \<open>the text of capture group \<open>i\<close> (what \<^verbatim>\<open>m[i]\<close> holds and what a
      back-reference to the group stands for); the empty text when there is no such group\<close>
  "group_text caps i = (if 0 < i \<and> i \<le> length caps then caps ! (i - 1) else [])"

fun rmatch :: "regex \<Rightarrow> char option \<Rightarrow> string \<Rightarrow> string list \<Rightarrow> (nat \<times> string list) option" where
  \<comment> \<open>the backtracking matcher at one position: the length of the match and the captures,
      a greedy quantifier trying its longest run first and giving characters back one by one\<close>
  "rmatch [] prev s caps = Some (0, caps)"
| "rmatch (Lit l # ts) prev s caps =
     (if starts_with s l
      then (case rmatch ts (last_of prev l) (drop (length l) s) caps of
              None \<Rightarrow> None
            | Some (n, cs) \<Rightarrow> Some (length l + n, cs))
      else None)"
| "rmatch (Rep c lo hi # ts) prev s caps =
     first_some
       (\<lambda>k. case rmatch ts (last_of prev (take k s)) (drop k s) caps of
               None \<Rightarrow> None
             | Some (n, cs) \<Rightarrow> Some (k + n, cs))
       (rev [lo ..< Suc (run_len c hi s)])"
| "rmatch (Grp c lo hi # ts) prev s caps =
     first_some
       (\<lambda>k. case rmatch ts (last_of prev (take k s)) (drop k s) (caps @ [take k s]) of
               None \<Rightarrow> None
             | Some (n, cs) \<Rightarrow> Some (k + n, cs))
       (rev [lo ..< Suc (run_len c hi s)])"
| "rmatch (Ref i # ts) prev s caps =
     (let w = group_text caps i
      in if starts_with s w
         then (case rmatch ts (last_of prev w) (drop (length w) s) caps of
                 None \<Rightarrow> None
               | Some (n, cs) \<Rightarrow> Some (length w + n, cs))
         else None)"
| "rmatch (WordB # ts) prev s caps =
     (if at_boundary prev s then rmatch ts prev s caps else None)"

fun search :: "regex \<Rightarrow> char option \<Rightarrow> string \<Rightarrow> (nat \<times> nat \<times> string list) option" where
  \<comment> \<open>\<^verbatim>\<open>String.prototype.match\<close> with a regular expression that is not global: the
      leftmost position where the matcher succeeds, the length of the match, the captures\<close>
  "search re prev [] =
     (case rmatch re prev [] [] of None \<Rightarrow> None | Some (n, cs) \<Rightarrow> Some (0, n, cs))"
| "search re prev (c # s) =
     (case rmatch re prev (c # s) [] of
        Some (n, cs) \<Rightarrow> Some (0, n, cs)
      | None \<Rightarrow>
          (case search re (Some c) s of
             None \<Rightarrow> None
           | Some (i, n, cs) \<Rightarrow> Some (Suc i, n, cs)))"

subsection \<open>A match stays inside the text\<close>

lemma first_some_SomeD:
  "first_some f xs = Some y \<Longrightarrow> \<exists>x \<in> set xs. f x = Some y"
  by (induction xs) (auto split: option.splits)

lemma first_some_None_iff:
  "first_some f xs = None \<longleftrightarrow> (\<forall>x \<in> set xs. f x = None)"
  by (induction xs) (auto split: option.splits)

lemma starts_with_iff: "starts_with s t \<longleftrightarrow> take (length t) s = t"
  by (induction s t rule: starts_with.induct) auto

lemma starts_with_append: "starts_with s t \<longleftrightarrow> (\<exists>r. s = t @ r)"
proof
  assume "starts_with s t"
  then have "take (length t) s = t" by (simp add: starts_with_iff)
  then have "s = t @ drop (length t) s" by (metis append_take_drop_id)
  then show "\<exists>r. s = t @ r" ..
next
  assume "\<exists>r. s = t @ r"
  then show "starts_with s t" by (auto simp: starts_with_iff)
qed

lemma starts_with_length: "starts_with s t \<Longrightarrow> length t \<le> length s"
  by (auto simp: starts_with_append)

lemma run_len_le: "run_len c hi s \<le> length s"
proof -
  have "length (takeWhile (in_class c) s) \<le> length s"
    by (rule length_takeWhile_le)
  then show ?thesis by (cases hi) auto
qed

lemma rmatch_Lit_SomeD:
  assumes "rmatch (Lit l # ts) prev s caps = Some (n, cs)"
  shows "\<exists>m. starts_with s l \<and> n = length l + m
           \<and> rmatch ts (last_of prev l) (drop (length l) s) caps = Some (m, cs)"
proof (cases "rmatch ts (last_of prev l) (drop (length l) s) caps")
  case None
  with assms show ?thesis by (simp split: if_splits)
next
  case (Some r)
  with assms show ?thesis by (cases r) (simp split: if_splits)
qed

lemma rmatch_Rep_SomeD:
  assumes "rmatch (Rep c lo hi # ts) prev s caps = Some (n, cs)"
  shows "\<exists>k m. lo \<le> k \<and> k \<le> run_len c hi s \<and> n = k + m
           \<and> rmatch ts (last_of prev (take k s)) (drop k s) caps = Some (m, cs)"
proof -
  from assms have "first_some
       (\<lambda>k. case rmatch ts (last_of prev (take k s)) (drop k s) caps of
               None \<Rightarrow> None
             | Some (n, cs) \<Rightarrow> Some (k + n, cs))
       (rev [lo ..< Suc (run_len c hi s)]) = Some (n, cs)"
    by simp
  from first_some_SomeD [OF this]
  obtain k where k: "k \<in> set (rev [lo ..< Suc (run_len c hi s)])"
    and f: "(case rmatch ts (last_of prev (take k s)) (drop k s) caps of
              None \<Rightarrow> None | Some (m, cs') \<Rightarrow> Some (k + m, cs')) = Some (n, cs)"
    by blast
  from f obtain m where "rmatch ts (last_of prev (take k s)) (drop k s) caps = Some (m, cs)"
    and "n = k + m"
    by (cases "rmatch ts (last_of prev (take k s)) (drop k s) caps") auto
  with k show ?thesis by auto
qed

lemma rmatch_Grp_SomeD:
  assumes "rmatch (Grp c lo hi # ts) prev s caps = Some (n, cs)"
  shows "\<exists>k m. lo \<le> k \<and> k \<le> run_len c hi s \<and> n = k + m
           \<and> rmatch ts (last_of prev (take k s)) (drop k s) (caps @ [take k s]) = Some (m, cs)"
proof -
  from assms have "first_some
       (\<lambda>k. case rmatch ts (last_of prev (take k s)) (drop k s) (caps @ [take k s]) of
               None \<Rightarrow> None
             | Some (n, cs) \<Rightarrow> Some (k + n, cs))
       (rev [lo ..< Suc (run_len c hi s)]) = Some (n, cs)"
    by simp
  from first_some_SomeD [OF this]
  obtain k where k: "k \<in> set (rev [lo ..< Suc (run_len c hi s)])"
    and f: "(case rmatch ts (last_of prev (take k s)) (drop k s) (caps @ [take k s]) of
              None \<Rightarrow> None | Some (m, cs') \<Rightarrow> Some (k + m, cs')) = Some (n, cs)"
    by blast
  from f obtain m where
    "rmatch ts (last_of prev (take k s)) (drop k s) (caps @ [take k s]) = Some (m, cs)"
    and "n = k + m"
    by (cases "rmatch ts (last_of prev (take k s)) (drop k s) (caps @ [take k s])") auto
  with k show ?thesis by auto
qed

lemma rmatch_Ref_SomeD:
  assumes "rmatch (Ref i # ts) prev s caps = Some (n, cs)"
  shows "\<exists>m. starts_with s (group_text caps i) \<and> n = length (group_text caps i) + m
           \<and> rmatch ts (last_of prev (group_text caps i)) (drop (length (group_text caps i)) s) caps
               = Some (m, cs)"
proof (cases "rmatch ts (last_of prev (group_text caps i)) (drop (length (group_text caps i)) s) caps")
  case None
  with assms show ?thesis by (simp add: Let_def split: if_splits)
next
  case (Some r)
  with assms show ?thesis by (cases r) (simp add: Let_def split: if_splits)
qed

lemma rmatch_WordB_SomeD:
  "rmatch (WordB # ts) prev s caps = Some r \<Longrightarrow> at_boundary prev s \<and> rmatch ts prev s caps = Some r"
  by (simp split: if_splits)

lemma rmatch_bound: "rmatch ts prev s caps = Some (n, cs) \<Longrightarrow> n \<le> length s"
proof (induction ts arbitrary: prev s caps n cs)
  case Nil
  then show ?case by simp
next
  case (Cons t ts)
  show ?case
  proof (cases t)
    case (Lit l)
    with Cons.prems obtain m where
      l: "starts_with s l" and n: "n = length l + m"
      and m: "rmatch ts (last_of prev l) (drop (length l) s) caps = Some (m, cs)"
      using rmatch_Lit_SomeD by blast
    from l have "length l \<le> length s"
      by (rule starts_with_length)
    moreover from Cons.IH [OF m] have "m \<le> length s - length l" by simp
    ultimately show ?thesis using n by simp
  next
    case (Rep c lo hi)
    with Cons.prems obtain k m where
      k: "k \<le> run_len c hi s" and n: "n = k + m"
      and m: "rmatch ts (last_of prev (take k s)) (drop k s) caps = Some (m, cs)"
      using rmatch_Rep_SomeD by blast
    from k have "k \<le> length s" using run_len_le [of c hi s] by simp
    moreover from Cons.IH [OF m] have "m \<le> length s - k" by simp
    ultimately show ?thesis using n by simp
  next
    case (Grp c lo hi)
    with Cons.prems obtain k m where
      k: "k \<le> run_len c hi s" and n: "n = k + m"
      and m: "rmatch ts (last_of prev (take k s)) (drop k s) (caps @ [take k s]) = Some (m, cs)"
      using rmatch_Grp_SomeD by blast
    from k have "k \<le> length s" using run_len_le [of c hi s] by simp
    moreover from Cons.IH [OF m] have "m \<le> length s - k" by simp
    ultimately show ?thesis using n by simp
  next
    case (Ref i)
    with Cons.prems obtain m where
      l: "starts_with s (group_text caps i)" and n: "n = length (group_text caps i) + m"
      and m: "rmatch ts (last_of prev (group_text caps i)) (drop (length (group_text caps i)) s) caps
                = Some (m, cs)"
      using rmatch_Ref_SomeD by blast
    from l have "length (group_text caps i) \<le> length s"
      by (rule starts_with_length)
    moreover from Cons.IH [OF m] have "m \<le> length s - length (group_text caps i)" by simp
    ultimately show ?thesis using n by simp
  next
    case WordB
    with Cons.prems have "rmatch ts prev s caps = Some (n, cs)"
      using rmatch_WordB_SomeD by blast
    then show ?thesis by (rule Cons.IH)
  qed
qed

lemma search_bound: "search re prev s = Some (i, n, cs) \<Longrightarrow> i + n \<le> length s"
proof (induction s arbitrary: prev i)
  case Nil
  then show ?case by (auto split: option.splits dest: rmatch_bound)
next
  case (Cons c s)
  show ?case
  proof (cases "rmatch re prev (c # s) []")
    case None
    with Cons.prems obtain j where "search re (Some c) s = Some (j, n, cs)" and "i = Suc j"
      by (auto split: option.splits)
    with Cons.IH show ?thesis by fastforce
  next
    case (Some r)
    with Cons.prems have "rmatch re prev (c # s) [] = Some (n, cs)" and "i = 0"
      by (auto split: prod.splits)
    then show ?thesis by (auto dest: rmatch_bound)
  qed
qed

function exec_all :: "regex \<Rightarrow> char option \<Rightarrow> string \<Rightarrow> string list list option" where
  \<comment> \<open>the loop \<^verbatim>\<open>while ((m = re.exec(text)) !== null)\<close> over a global regular expression: the
      captures of each match, the next search starting where the last match ended. A match
      of length 0 leaves \<^verbatim>\<open>lastIndex\<close> where it is and the loop never ends: \<open>None\<close>.\<close>
  "exec_all re prev s =
     (case search re prev s of
        None \<Rightarrow> Some []
      | Some (i, n, cs) \<Rightarrow>
          if n = 0 then None
          else (case exec_all re (last_of prev (take (i + n) s)) (drop (i + n) s) of
                  None \<Rightarrow> None
                | Some ms \<Rightarrow> Some (cs # ms)))"
  by pat_completeness auto
termination
proof (relation "measure (\<lambda>(re, prev, s). length s)", goal_cases)
  case 1
  show ?case by simp
next
  case (2 re prev s x2 x y x2a ya)
  then have "search re prev s = Some (x, x2a, ya)" by simp
  then have "x + x2a \<le> length s" by (rule search_bound)
  moreover from 2 have "0 < x2a" by simp
  ultimately show ?case by simp
qed


section \<open>String operations of the host language\<close>

fun index_of :: "string \<Rightarrow> string \<Rightarrow> nat option" where
  \<comment> \<open>\<^verbatim>\<open>s.indexOf(t)\<close>: the first position where \<open>t\<close> occurs; \<open>None\<close> stands for \<open>-1\<close>\<close>
  "index_of t [] = (if t = [] then Some 0 else None)"
| "index_of t (c # s) =
     (if starts_with (c # s) t then Some 0
      else (case index_of t s of None \<Rightarrow> None | Some i \<Rightarrow> Some (Suc i)))"

definition includes_str :: "string \<Rightarrow> string \<Rightarrow> bool" where
  \<comment> \<open>\<^verbatim>\<open>s.includes(t)\<close>\<close>
  "includes_str s t = (index_of t s \<noteq> None)"

definition substring :: "string \<Rightarrow> int \<Rightarrow> int \<Rightarrow> string" where
  \<comment> \<open>\<^verbatim>\<open>s.substring(a, b)\<close>: both ends are clamped to the text and swapped when out of order\<close>
  "substring s a b =
     (let n = int (length s);
          a' = min (max a 0) n;
          b' = min (max b 0) n;
          lo = min a' b';
          hi = max a' b'
      in take (nat (hi - lo)) (drop (nat lo) s))"

function count_occ :: "string \<Rightarrow> string \<Rightarrow> nat" where
  \<comment> \<open>the separators \<^verbatim>\<open>s.split(t)\<close> finds for a separator that is not empty: it scans from
      the left and resumes after each occurrence\<close>
  "count_occ t s =
     (if t = [] then 0
      else (case s of
              [] \<Rightarrow> 0
            | c # s' \<Rightarrow>
                if starts_with s t then Suc (count_occ t (drop (length t) s))
                else count_occ t s'))"
  by pat_completeness auto
termination
proof (relation "measure (\<lambda>(t, s). length s)", goal_cases)
  case 1
  show ?case by simp
next
  case (2 t s c s')
  then show ?case by (cases t) auto
next
  case (3 t s c s')
  then show ?case by simp
qed

definition split_count :: "string \<Rightarrow> string \<Rightarrow> int" where
  \<comment> \<open>\<^verbatim>\<open>s.split(t).length - 1\<close>; the empty separator splits the text into its characters\<close>
  "split_count s t =
     (if t = [] then int (length s) - 1 else int (count_occ t s))"

fun get_substitution :: "string \<Rightarrow> string \<Rightarrow> string \<Rightarrow> string \<Rightarrow> string" where
  \<comment> \<open>the replacement patterns of \<^verbatim>\<open>String.prototype.replace\<close> when the pattern is a string:
      \<^verbatim>\<open>$$\<close>, \<^verbatim>\<open>$&\<close>, the text before the match and the text after it; any other \<^verbatim>\<open>$\<close>
      stays as it is\<close>
  "get_substitution matched pre post [] = []"
| "get_substitution matched pre post [c] = [c]"
| "get_substitution matched pre post (c # d # r) =
     (if c = CHR ''$'' then
        (if d = CHR ''$'' then CHR ''$'' # get_substitution matched pre post r
         else if d = CHR ''&'' then matched @ get_substitution matched pre post r
         else if d = CHR 0x60 then pre @ get_substitution matched pre post r
         else if d = CHR 0x27 then post @ get_substitution matched pre post r
         else c # get_substitution matched pre post (d # r))
      else c # get_substitution matched pre post (d # r))"

definition replace :: "string \<Rightarrow> string \<Rightarrow> string \<Rightarrow> string" where
  \<comment> \<open>\<^verbatim>\<open>s.replace(t, r)\<close> with a string pattern: the first occurrence only\<close>
  "replace s t r =
     (case index_of t s of
        None \<Rightarrow> s
      | Some i \<Rightarrow>
          take i s
            @ get_substitution t (take i s) (drop (i + length t) s) r
            @ drop (i + length t) s)"

section \<open>The tally of hook candidates\<close>

text \<open>
  \<^verbatim>\<open>effectCandidates\<close> is a plain object used as a dictionary from alias to count. Its keys
  are kept in the order of their creation; \<^verbatim>\<open>Object.entries\<close> lists the keys that are
  array indices first, in ascending numeric order, and the other keys after them in the
  order of their creation.
\<close>

type_synonym tally = "(string \<times> nat) list"

fun bump :: "string \<Rightarrow> nat \<Rightarrow> tally \<Rightarrow> tally" where
  \<comment> \<open>\<^verbatim>\<open>t[alias] = (t[alias] || 0) + w\<close>\<close>
  "bump a w [] = [(a, w)]"
| "bump a w ((k, v) # t) = (if k = a then (k, v + w) # t else (k, v) # bump a w t)"

definition is_digit :: "char \<Rightarrow> bool" where
  "is_digit c = (let n = (of_char c :: nat) in 48 \<le> n \<and> n \<le> 57)"

fun digits_value :: "nat \<Rightarrow> string \<Rightarrow> nat" where
  "digits_value acc [] = acc"
| "digits_value acc (c # s) = digits_value (10 * acc + (of_char c - 48)) s"

definition array_index :: "string \<Rightarrow> nat option" where
  \<comment> \<open>the number a key stands for when it is an array index: a decimal numeral without a
      leading zero, below \<open>2^32 - 1\<close>\<close>
  "array_index k =
     (if k \<noteq> [] \<and> list_all is_digit k \<and> (k = ''0'' \<or> hd k \<noteq> CHR ''0'')
         \<and> digits_value 0 k < 4294967295
      then Some (digits_value 0 k) else None)"

fun index_entries :: "tally \<Rightarrow> (nat \<times> string \<times> nat) list" where
  "index_entries [] = []"
| "index_entries ((k, v) # t) =
     (case array_index k of
        None \<Rightarrow> index_entries t
      | Some i \<Rightarrow> (i, k, v) # index_entries t)"

definition entries :: "tally \<Rightarrow> (string \<times> nat) list" where
  \<comment> \<open>\<^verbatim>\<open>Object.entries(t)\<close>\<close>
  "entries t =
     map snd (sort_key fst (index_entries t)) @ filter (\<lambda>(k, v). array_index k = None) t"

section \<open>The identifier extractor: \<^verbatim>\<open>analyzeFile\<close>\<close>

definition onChangeRe :: regex where
  \<comment> \<open>\<^verbatim>\<open>/(\w+)=(\w+)\((\w+)=>\{\w+\?\.setTerminalAutoExecutionPolicy\?\.\(\3\),\3===(\w+)\.EAGER&&(\w+)\(!0\)\},\[[\w,]*\]\)/\<close>\<close>
  "onChangeRe =
     [Grp Word 1 None, Lit ''='', Grp Word 1 None, Lit ''('', Grp Word 1 None, Lit ''=>{'',
      Rep Word 1 None, Lit ''?.setTerminalAutoExecutionPolicy?.('', Ref 3, Lit ''),'',
      Ref 3, Lit ''==='', Grp Word 1 None, Lit ''.EAGER&&'', Grp Word 1 None,
      Lit ''(!0)},['', Rep WordComma 0 None, Lit ''])'']"

definition policyRe :: "string \<Rightarrow> regex" where
  \<comment> \<open>\<^verbatim>\<open>new RegExp(`(\\w+)=\\w+\\?\\.terminalAutoExecutionPolicy\\?\\?${enumAlias}\\.OFF`)\<close>;
      the alias is a run of word characters, which the pattern reads as a literal\<close>
  "policyRe enum =
     [Grp Word 1 None, Lit ''='', Rep Word 1 None, Lit ''?.terminalAutoExecutionPolicy??'',
      Lit enum, Lit ''.OFF'']"

definition secureRe :: regex where
  \<comment> \<open>\<^verbatim>\<open>/(\w+)=\w+\?\.secureModeEnabled\?\?!1/\<close>\<close>
  "secureRe = [Grp Word 1 None, Lit ''='', Rep Word 1 None, Lit ''?.secureModeEnabled??!1'']"

definition effectRe :: regex where
  \<comment> \<open>\<^verbatim>\<open>/\b(\w{2,3})\(\(\)=>\{[^}]{3,80}\},\[/g\<close>\<close>
  "effectRe =
     [WordB, Grp Word 2 (Some 3), Lit ''(()=>{'', Rep NotBrace 3 (Some 80), Lit ''},['']"

definition cleanupRe :: regex where
  \<comment> \<open>\<^verbatim>\<open>/\b(\w{2,3})\(\(\)=>\{[^}]*return\s*\(\)=>/g\<close>\<close>
  "cleanupRe =
     [WordB, Grp Word 2 (Some 3), Lit ''(()=>{'', Rep NotBrace 0 None, Lit ''return'',
      Rep Space 0 None, Lit ''()=>'']"

definition existingPatchRe :: regex where
  \<comment> \<open>\<^verbatim>\<open>/_aep=\w+\(\(\)=>\{[^}]+EAGER[^}]+\},\[\]\)/\<close>\<close>
  "existingPatchRe =
     [Lit ''_aep='', Rep Word 1 None, Lit ''(()=>{'', Rep NotBrace 1 None, Lit ''EAGER'',
      Rep NotBrace 1 None, Lit ''},[])'']"

definition checkRe :: regex where
  \<comment> \<open>\<^verbatim>\<open>/_aep=\w+\(\(\)=>\{[^}]+EAGER/\<close>\<close>
  "checkRe = [Lit ''_aep='', Rep Word 1 None, Lit ''(()=>{'', Rep NotBrace 1 None, Lit ''EAGER'']"

datatype failure = NoHandler | NoPolicy | NoSecure | NoHook | Hang

record symbols =
  fullMatch :: string
  assignVar :: string
  callbackAlias :: string
  argName :: string
  enumAlias :: string
  confirmFn :: string
  policyVar :: string
  secureVar :: string
  useEffectAlias :: string
  maxCount :: nat

fun tally_effect :: "string \<Rightarrow> string list list \<Rightarrow> tally \<Rightarrow> tally" where
  \<comment> \<open>the body of the first loop, over the matches of \<open>effectRe\<close> in the window\<close>
  "tally_effect cb [] t = t"
| "tally_effect cb (m # ms) t =
     (let alias = group_text m 1
      in tally_effect cb ms
           (if alias \<noteq> cb \<and> alias \<noteq> ''var'' \<and> alias \<noteq> ''new'' then bump alias 1 t else t))"

fun tally_cleanup :: "string \<Rightarrow> string list list \<Rightarrow> tally \<Rightarrow> tally" where
  \<comment> \<open>the body of the second loop, over the matches of \<open>cleanupRe\<close> in the whole text\<close>
  "tally_cleanup cb [] t = t"
| "tally_cleanup cb (m # ms) t =
     (let alias = group_text m 1
      in tally_cleanup cb ms (if alias \<noteq> cb then bump alias 5 t else t))"

fun pick :: "(string \<times> nat) list \<Rightarrow> string option \<times> nat \<Rightarrow> string option \<times> nat" where
  \<comment> \<open>the loop that picks the most common candidate, with \<^verbatim>\<open>useEffectAlias\<close> and
      \<^verbatim>\<open>maxCount\<close> as its state\<close>
  "pick [] best = best"
| "pick ((alias, count) # es) (best, mx) =
     (if count > mx then pick es (Some alias, count)
      else pick es (best, mx))"

definition match_index :: "string \<Rightarrow> string \<Rightarrow> int" where
  \<comment> \<open>\<^verbatim>\<open>content.indexOf(fullMatch)\<close> as a number\<close>
  "match_index content full = (case index_of full content of None \<Rightarrow> - 1 | Some j \<Rightarrow> int j)"

definition preceding :: "string \<Rightarrow> int \<Rightarrow> string" where
  \<comment> \<open>\<^verbatim>\<open>content.substring(Math.max(0, matchIndex - 2000), matchIndex)\<close>\<close>
  "preceding content matchIndex = substring content (max 0 (matchIndex - 2000)) matchIndex"

definition nearbyCode :: "string \<Rightarrow> int \<Rightarrow> string" where
  \<comment> \<open>\<^verbatim>\<open>content.substring(Math.max(0, matchIndex - 5000), matchIndex + 5000)\<close>\<close>
  "nearbyCode content matchIndex =
     substring content (max 0 (matchIndex - 5000)) (matchIndex + 5000)"

definition effectCandidates :: "string \<Rightarrow> string list list \<Rightarrow> string list list \<Rightarrow> tally" where
  \<comment> \<open>the tally after both loops\<close>
  "effectCandidates cb ems cms = tally_cleanup cb cms (tally_effect cb ems [])"

definition extract_symbols :: "string \<Rightarrow> failure + symbols" where
  \<comment> \<open>steps 1 to 4 of \<^verbatim>\<open>analyzeFile\<close>: each \<^verbatim>\<open>return null\<close> is a failure of its own\<close>
  "extract_symbols content =
     (case search onChangeRe None content of
        None \<Rightarrow> Inl NoHandler
      | Some (i, n, cs) \<Rightarrow>
          (let full = take n (drop i content);
               matchIndex = match_index content full
           in case search (policyRe (group_text cs 4)) None (preceding content matchIndex) of
                None \<Rightarrow> Inl NoPolicy
              | Some (pj, pn, pcs) \<Rightarrow>
                  (case search secureRe None (preceding content matchIndex) of
                     None \<Rightarrow> Inl NoSecure
                   | Some (sj, sn, scs) \<Rightarrow>
                       (case exec_all effectRe None (nearbyCode content matchIndex) of
                          None \<Rightarrow> Inl Hang
                        | Some ems \<Rightarrow>
                            (case exec_all cleanupRe None content of
                               None \<Rightarrow> Inl Hang
                             | Some cms \<Rightarrow>
                                 (case pick (entries (effectCandidates (group_text cs 2) ems cms))
                                         (None, 0) of
                                    (None, mx) \<Rightarrow> Inl NoHook
                                  | (Some alias, mx) \<Rightarrow>
                                      if alias = [] then Inl NoHook
                                      else Inr \<lparr>fullMatch = full,
                                                assignVar = group_text cs 1,
                                                callbackAlias = group_text cs 2,
                                                argName = group_text cs 3,
                                                enumAlias = group_text cs 4,
                                                confirmFn = group_text cs 5,
                                                policyVar = group_text pcs 1,
                                                secureVar = group_text scs 1,
                                                useEffectAlias = alias,
                                                maxCount = mx\<rparr>))))))"

record analysis =
  target :: string
  replacement :: string
  patchMarker :: string
  label :: string

definition patchCode :: "symbols \<Rightarrow> string" where
  \<comment> \<open>\<^verbatim>\<open>`_aep=${useEffectAlias}(()=>{${policyVar}===${enumAlias}.EAGER&&!${secureVar}&&${confirmFn}(!0)},[]),`\<close>\<close>
  "patchCode sy =
     ''_aep='' @ useEffectAlias sy @ ''(()=>{'' @ policyVar sy @ ''==='' @ enumAlias sy
       @ ''.EAGER&&!'' @ secureVar sy @ ''&&'' @ confirmFn sy @ ''(!0)},[]),''"

definition build :: "symbols \<Rightarrow> string \<Rightarrow> analysis" where
  \<comment> \<open>step 5 of \<^verbatim>\<open>analyzeFile\<close>: the object it returns\<close>
  "build sy lbl =
     \<lparr>target = fullMatch sy,
      replacement = patchCode sy @ fullMatch sy,
      patchMarker =
        ''_aep='' @ useEffectAlias sy @ ''(()=>{'' @ policyVar sy @ ''==='' @ enumAlias sy
          @ ''.EAGER'',
      label = lbl\<rparr>"

definition analyzeFile :: "string \<Rightarrow> string \<Rightarrow> failure + analysis" where
  "analyzeFile content lbl =
     (case extract_symbols content of Inl f \<Rightarrow> Inl f | Inr sy \<Rightarrow> Inr (build sy lbl))"

section \<open>The file system and the file operations\<close>

text \<open>
  The file system is a map from paths to the text of the file at that path, together
  with the log of the calls made to it, oldest first. A call that Node.js answers with an
  exception (reading or copying a file that does not exist) yields \<open>None\<close>.
\<close>

datatype fs_op =
    ExistsSync string
  | ReadFileSync string
  | CopyFileSync string string
  | WriteFileSync string string
  | StatSync string

record world =
  files :: "string \<rightharpoonup> string"
  ops :: "fs_op list"

definition existsSync :: "string \<Rightarrow> world \<Rightarrow> bool \<times> world" where
  "existsSync p w = (files w p \<noteq> None, w\<lparr>ops := ops w @ [ExistsSync p]\<rparr>)"

definition readFileSync :: "string \<Rightarrow> world \<Rightarrow> string option \<times> world" where
  "readFileSync p w = (files w p, w\<lparr>ops := ops w @ [ReadFileSync p]\<rparr>)"

definition copyFileSync :: "string \<Rightarrow> string \<Rightarrow> world \<Rightarrow> world option" where
  "copyFileSync src dst w =
     (case files w src of
        None \<Rightarrow> None
      | Some b \<Rightarrow> Some (w\<lparr>files := (files w)(dst \<mapsto> b), ops := ops w @ [CopyFileSync src dst]\<rparr>))"

definition writeFileSync :: "string \<Rightarrow> string \<Rightarrow> world \<Rightarrow> world" where
  "writeFileSync p c w = w\<lparr>files := (files w)(p \<mapsto> c), ops := ops w @ [WriteFileSync p c]\<rparr>"

definition statSync :: "string \<Rightarrow> world \<Rightarrow> bool \<times> world" where
  \<comment> \<open>the size it returns is only printed; what matters is that the file is there\<close>
  "statSync p w = (files w p \<noteq> None, w\<lparr>ops := ops w @ [StatSync p]\<rparr>)"

datatype outcome =
    NotFound
  | AlreadyPatched
  | Unrecognized failure
  | Ambiguous int
  | Patched
  | Threw

fun returned :: "outcome \<Rightarrow> bool option" where
  \<comment> \<open>what \<^verbatim>\<open>patchFile\<close> returns; \<open>None\<close> when it throws instead\<close>
  "returned NotFound = Some False"
| "returned AlreadyPatched = Some True"
| "returned (Unrecognized f) = Some False"
| "returned (Ambiguous n) = Some False"
| "returned Patched = Some True"
| "returned Threw = None"

definition already_patched :: "string \<Rightarrow> bool" where
  \<comment> \<open>the test \<^verbatim>\<open>patchFile\<close> makes before anything else\<close>
  "already_patched content =
     (if includes_str content ''_aep=''
      then (if search existingPatchRe None content \<noteq> None then True else False)
      else False)"

definition apply_analysis :: "analysis \<Rightarrow> string \<Rightarrow> string \<Rightarrow> world \<Rightarrow> outcome \<times> world" where
  \<comment> \<open>\<^verbatim>\<open>patchFile\<close> from the uniqueness check on: backup, write, report\<close>
  "apply_analysis a filePath content w =
     (let count = split_count content (target a)
      in if count \<noteq> 1 then (Ambiguous count, w)
         else (case existsSync (filePath @ ''.bak'') w of
                 (hasBak, w1) \<Rightarrow>
                   (case (if \<not> hasBak then copyFileSync filePath (filePath @ ''.bak'') w1
                          else Some w1) of
                      None \<Rightarrow> (Threw, w1)
                    | Some w2 \<Rightarrow>
                        (let patched = replace content (target a) (replacement a);
                             w3 = writeFileSync filePath patched w2
                         in case statSync filePath w3 of
                              (s1, w4) \<Rightarrow>
                                (case statSync (filePath @ ''.bak'') w4 of
                                   (s2, w5) \<Rightarrow>
                                     if s1 \<and> s2 then (Patched, w5) else (Threw, w5))))))"

definition patchFile :: "string \<Rightarrow> string \<Rightarrow> world \<Rightarrow> outcome \<times> world" where
  "patchFile filePath lbl w =
     (case existsSync filePath w of
        (ex, w1) \<Rightarrow>
          if \<not> ex then (NotFound, w1)
          else (case readFileSync filePath w1 of
                  (None, w2) \<Rightarrow> (Threw, w2)
                | (Some content, w2) \<Rightarrow>
                    if already_patched content then (AlreadyPatched, w2)
                    else (case analyzeFile content lbl of
                            Inl f \<Rightarrow> (Unrecognized f, w2)
                          | Inr a \<Rightarrow> apply_analysis a filePath content w2)))"

datatype revert_outcome = Skipped | Restored | RevertThrew

definition revertFile :: "string \<Rightarrow> string \<Rightarrow> world \<Rightarrow> revert_outcome \<times> world" where
  "revertFile filePath lbl w =
     (let bak = filePath @ ''.bak''
      in case existsSync bak w of
           (ex, w1) \<Rightarrow>
             if \<not> ex then (Skipped, w1)
             else (case copyFileSync bak filePath w1 of
                     None \<Rightarrow> (RevertThrew, w1)
                   | Some w2 \<Rightarrow> (Restored, w2)))"

datatype check_outcome =
    CheckNotFound
  | IsPatched bool
  | Patchable
  | Incompatible
  | CheckThrew

definition checkFile :: "string \<Rightarrow> string \<Rightarrow> world \<Rightarrow> check_outcome \<times> world" where
  "checkFile filePath lbl w =
     (case existsSync filePath w of
        (ex, w1) \<Rightarrow>
          if \<not> ex then (CheckNotFound, w1)
          else (case readFileSync filePath w1 of
                  (None, w2) \<Rightarrow> (CheckThrew, w2)
                | (Some content, w2) \<Rightarrow>
                    (let patched =
                           (if includes_str content ''_aep=''
                            then search checkRe None content \<noteq> None else False)
                     in case existsSync (filePath @ ''.bak'') w2 of
                          (hasBak, w3) \<Rightarrow>
                            if patched then (IsPatched hasBak, w3)
                            else (case analyzeFile content lbl of
                                    Inl f \<Rightarrow> (Incompatible, w3)
                                  | Inr a \<Rightarrow> (Patchable, w3)))))"

section \<open>The command: \<^verbatim>\<open>main\<close>\<close>

text \<open>
  The search for the installation is outside this development: \<^verbatim>\<open>main\<close> takes what it
  found as \<open>basePath\<close>, \<open>None\<close> when the path given with \<^verbatim>\<open>--path\<close> is not an
  installation or when no installation was found. \<^verbatim>\<open>path.join\<close> is a parameter.
\<close>

datatype action = Apply | Check | Revert

definition action_of :: "string list \<Rightarrow> action" where
  \<comment> \<open>\<^verbatim>\<open>args.includes('--revert') ? 'revert' : args.includes('--check') ? 'check' : 'apply'\<close>\<close>
  "action_of args =
     (if ''--revert'' \<in> set args then Revert
      else if ''--check'' \<in> set args then Check
      else Apply)"

definition target_files :: "(string \<Rightarrow> string list \<Rightarrow> string) \<Rightarrow> string \<Rightarrow> (string \<times> string) list" where
  \<comment> \<open>the constant \<^verbatim>\<open>files\<close> of \<^verbatim>\<open>main\<close>: path and label\<close>
  "target_files join basePath =
     [(join basePath
         [''resources'', ''app'', ''out'', ''vs'', ''workbench'', ''workbench.desktop.main.js''],
       ''workbench''),
      (join basePath [''resources'', ''app'', ''out'', ''jetskiAgent'', ''main.js''],
       ''jetskiAgent'')]"

fun every_patchFile :: "(string \<times> string) list \<Rightarrow> world \<Rightarrow> outcome list \<times> world" where
  \<comment> \<open>\<^verbatim>\<open>files.every(f => patchFile(f.path, f.label))\<close>: \<^verbatim>\<open>every\<close> calls the function on
      the elements in order and stops at the first call that does not return true\<close>
  "every_patchFile [] w = ([], w)"
| "every_patchFile ((p, l) # fs) w =
     (case patchFile p l w of
        (out, w1) \<Rightarrow>
          if returned out = Some True
          then (case every_patchFile fs w1 of (outs, w2) \<Rightarrow> (out # outs, w2))
          else ([out], w1))"

fun forEach_revertFile :: "(string \<times> string) list \<Rightarrow> world \<Rightarrow> revert_outcome list \<times> world" where
  \<comment> \<open>\<^verbatim>\<open>files.forEach(f => revertFile(f.path, f.label))\<close>; an exception ends the loop\<close>
  "forEach_revertFile [] w = ([], w)"
| "forEach_revertFile ((p, l) # fs) w =
     (case revertFile p l w of
        (out, w1) \<Rightarrow>
          if out = RevertThrew then ([out], w1)
          else (case forEach_revertFile fs w1 of (outs, w2) \<Rightarrow> (out # outs, w2)))"

fun forEach_checkFile :: "(string \<times> string) list \<Rightarrow> world \<Rightarrow> check_outcome list \<times> world" where
  \<comment> \<open>\<^verbatim>\<open>files.forEach(f => checkFile(f.path, f.label))\<close>; an exception ends the loop\<close>
  "forEach_checkFile [] w = ([], w)"
| "forEach_checkFile ((p, l) # fs) w =
     (case checkFile p l w of
        (out, w1) \<Rightarrow>
          if out = CheckThrew then ([out], w1)
          else (case forEach_checkFile fs w1 of (outs, w2) \<Rightarrow> (out # outs, w2)))"

datatype report =
    NoInstallation
  | Applied "outcome list"
  | Checked "check_outcome list"
  | Reverted "revert_outcome list"

fun exit_code :: "report \<Rightarrow> nat" where
  \<comment> \<open>\<^verbatim>\<open>process.exit(1)\<close> when there is no installation; an uncaught exception ends the
      process with code 1; a run that reaches the end of \<^verbatim>\<open>main\<close> ends it with code 0\<close>
  "exit_code NoInstallation = 1"
| "exit_code (Applied outs) = (if Threw \<in> set outs then 1 else 0)"
| "exit_code (Checked outs) = (if CheckThrew \<in> set outs then 1 else 0)"
| "exit_code (Reverted outs) = (if RevertThrew \<in> set outs then 1 else 0)"

definition main :: "string list \<Rightarrow> (string \<Rightarrow> string list \<Rightarrow> string) \<Rightarrow> string option \<Rightarrow> world
    \<Rightarrow> report \<times> world" where
  "main args join basePath w =
     (case basePath of
        None \<Rightarrow> (NoInstallation, w)
      | Some base \<Rightarrow>
          (case action_of args of
             Check \<Rightarrow>
               (case forEach_checkFile (target_files join base) w of
                  (outs, w1) \<Rightarrow> (Checked outs, w1))
           | Revert \<Rightarrow>
               (case forEach_revertFile (target_files join base) w of
                  (outs, w1) \<Rightarrow> (Reverted outs, w1))
           | Apply \<Rightarrow>
               (case every_patchFile (target_files join base) w of
                  (outs, w1) \<Rightarrow> (Applied outs, w1))))"


section \<open>Equations for evaluation\<close>

text \<open>
  The definitions above compute, but slowly: a character class is decided by arithmetic
  on the code of the character, and a quantifier in front of a literal tries every length
  although only one can succeed. The equations of this section are consequences of the
  definitions that evaluate faster; they replace no definition.
\<close>

lemma is_word_high [code]: "is_word (Char b0 b1 b2 b3 b4 b5 b6 True) = False"
  by (simp add: is_word_def)

lemma is_word_ascii [code]:
  "is_word (CHR 0x00) = False"
  "is_word (CHR 0x01) = False"
  "is_word (CHR 0x02) = False"
  "is_word (CHR 0x03) = False"
  "is_word (CHR 0x04) = False"
  "is_word (CHR 0x05) = False"
  "is_word (CHR 0x06) = False"
  "is_word (CHR 0x07) = False"
  "is_word (CHR 0x08) = False"
  "is_word (CHR 0x09) = False"
  "is_word (CHR 0x0A) = False"
  "is_word (CHR 0x0B) = False"
  "is_word (CHR 0x0C) = False"
  "is_word (CHR 0x0D) = False"
  "is_word (CHR 0x0E) = False"
  "is_word (CHR 0x0F) = False"
  "is_word (CHR 0x10) = False"
  "is_word (CHR 0x11) = False"
  "is_word (CHR 0x12) = False"
  "is_word (CHR 0x13) = False"
  "is_word (CHR 0x14) = False"
  "is_word (CHR 0x15) = False"
  "is_word (CHR 0x16) = False"
  "is_word (CHR 0x17) = False"
  "is_word (CHR 0x18) = False"
  "is_word (CHR 0x19) = False"
  "is_word (CHR 0x1A) = False"
  "is_word (CHR 0x1B) = False"
  "is_word (CHR 0x1C) = False"
  "is_word (CHR 0x1D) = False"
  "is_word (CHR 0x1E) = False"
  "is_word (CHR 0x1F) = False"
  "is_word (CHR 0x20) = False"
  "is_word (CHR 0x21) = False"
  "is_word (CHR 0x22) = False"
  "is_word (CHR 0x23) = False"
  "is_word (CHR 0x24) = False"
  "is_word (CHR 0x25) = False"
  "is_word (CHR 0x26) = False"
  "is_word (CHR 0x27) = False"
  "is_word (CHR 0x28) = False"
  "is_word (CHR 0x29) = False"
  "is_word (CHR 0x2A) = False"
  "is_word (CHR 0x2B) = False"
  "is_word (CHR 0x2C) = False"
  "is_word (CHR 0x2D) = False"
  "is_word (CHR 0x2E) = False"
  "is_word (CHR 0x2F) = False"
  "is_word (CHR 0x30) = True"
  "is_word (CHR 0x31) = True"
  "is_word (CHR 0x32) = True"
  "is_word (CHR 0x33) = True"
  "is_word (CHR 0x34) = True"
  "is_word (CHR 0x35) = True"
  "is_word (CHR 0x36) = True"
  "is_word (CHR 0x37) = True"
  "is_word (CHR 0x38) = True"
  "is_word (CHR 0x39) = True"
  "is_word (CHR 0x3A) = False"
  "is_word (CHR 0x3B) = False"
  "is_word (CHR 0x3C) = False"
  "is_word (CHR 0x3D) = False"
  "is_word (CHR 0x3E) = False"
  "is_word (CHR 0x3F) = False"
  "is_word (CHR 0x40) = False"
  "is_word (CHR 0x41) = True"
  "is_word (CHR 0x42) = True"
  "is_word (CHR 0x43) = True"
  "is_word (CHR 0x44) = True"
  "is_word (CHR 0x45) = True"
  "is_word (CHR 0x46) = True"
  "is_word (CHR 0x47) = True"
  "is_word (CHR 0x48) = True"
  "is_word (CHR 0x49) = True"
  "is_word (CHR 0x4A) = True"
  "is_word (CHR 0x4B) = True"
  "is_word (CHR 0x4C) = True"
  "is_word (CHR 0x4D) = True"
  "is_word (CHR 0x4E) = True"
  "is_word (CHR 0x4F) = True"
  "is_word (CHR 0x50) = True"
  "is_word (CHR 0x51) = True"
  "is_word (CHR 0x52) = True"
  "is_word (CHR 0x53) = True"
  "is_word (CHR 0x54) = True"
  "is_word (CHR 0x55) = True"
  "is_word (CHR 0x56) = True"
  "is_word (CHR 0x57) = True"
  "is_word (CHR 0x58) = True"
  "is_word (CHR 0x59) = True"
  "is_word (CHR 0x5A) = True"
  "is_word (CHR 0x5B) = False"
  "is_word (CHR 0x5C) = False"
  "is_word (CHR 0x5D) = False"
  "is_word (CHR 0x5E) = False"
  "is_word (CHR 0x5F) = True"
  "is_word (CHR 0x60) = False"
  "is_word (CHR 0x61) = True"
  "is_word (CHR 0x62) = True"
  "is_word (CHR 0x63) = True"
  "is_word (CHR 0x64) = True"
  "is_word (CHR 0x65) = True"
  "is_word (CHR 0x66) = True"
  "is_word (CHR 0x67) = True"
  "is_word (CHR 0x68) = True"
  "is_word (CHR 0x69) = True"
  "is_word (CHR 0x6A) = True"
  "is_word (CHR 0x6B) = True"
  "is_word (CHR 0x6C) = True"
  "is_word (CHR 0x6D) = True"
  "is_word (CHR 0x6E) = True"
  "is_word (CHR 0x6F) = True"
  "is_word (CHR 0x70) = True"
  "is_word (CHR 0x71) = True"
  "is_word (CHR 0x72) = True"
  "is_word (CHR 0x73) = True"
  "is_word (CHR 0x74) = True"
  "is_word (CHR 0x75) = True"
  "is_word (CHR 0x76) = True"
  "is_word (CHR 0x77) = True"
  "is_word (CHR 0x78) = True"
  "is_word (CHR 0x79) = True"
  "is_word (CHR 0x7A) = True"
  "is_word (CHR 0x7B) = False"
  "is_word (CHR 0x7C) = False"
  "is_word (CHR 0x7D) = False"
  "is_word (CHR 0x7E) = False"
  "is_word (CHR 0x7F) = False"
  by (simp_all add: is_word_def)

lemma run_len_nth:
  assumes "k < run_len c hi s"
  shows "k < length s \<and> in_class c (s ! k)"
proof -
  from assms have k: "k < length (takeWhile (in_class c) s)"
    by (cases hi) auto
  then have "takeWhile (in_class c) s ! k \<in> set (takeWhile (in_class c) s)"
    by simp
  then have "in_class c (takeWhile (in_class c) s ! k)"
    by (rule set_takeWhileD [THEN conjunct2])
  moreover from k have "takeWhile (in_class c) s ! k = s ! k"
    by (rule takeWhile_nth)
  moreover from k have "k < length s"
    using length_takeWhile_le [of "in_class c" s] by simp
  ultimately show ?thesis by simp
qed

lemma rmatch_Lit_mismatch:
  assumes "k < length s" and "s ! k \<noteq> x"
  shows "rmatch (Lit (x # l) # ts) prev (drop k s) caps = None"
proof -
  from assms(1) have "drop k s = s ! k # drop (Suc k) s"
    by (simp add: Cons_nth_drop_Suc)
  with assms(2) show ?thesis by simp
qed

lemma first_some_upto_last:
  assumes "\<And>k. lo \<le> k \<Longrightarrow> k < r \<Longrightarrow> f k = None"
  shows "first_some f (rev [lo ..< Suc r]) = (if lo \<le> r then f r else None)"
proof (cases "lo \<le> r")
  case True
  have "first_some f (rev [lo ..< r]) = None"
    using assms by (simp add: first_some_None_iff)
  with True show ?thesis by (simp split: option.splits)
next
  case False
  then show ?thesis by simp
qed

lemma rmatch_Grp_before_Lit:
  assumes "\<not> in_class c x"
  shows "rmatch (Grp c lo hi # Lit (x # l) # ts) prev s caps =
     (let k = run_len c hi s
      in if lo \<le> k
         then (case rmatch (Lit (x # l) # ts) (last_of prev (take k s)) (drop k s) (caps @ [take k s]) of
                 None \<Rightarrow> None
               | Some (n, cs) \<Rightarrow> Some (k + n, cs))
         else None)"
proof -
  have "rmatch (Lit (x # l) # ts) (last_of prev (take k s)) (drop k s) (caps @ [take k s]) = None"
    if "k < run_len c hi s" for k
  proof -
    from that have "k < length s" and "in_class c (s ! k)"
      using run_len_nth by blast+
    with assms have "s ! k \<noteq> x" by auto
    with \<open>k < length s\<close> show ?thesis by (rule rmatch_Lit_mismatch)
  qed
  then have "first_some
       (\<lambda>k. case rmatch (Lit (x # l) # ts) (last_of prev (take k s)) (drop k s) (caps @ [take k s]) of
               None \<Rightarrow> None
             | Some (n, cs) \<Rightarrow> Some (k + n, cs))
       (rev [lo ..< Suc (run_len c hi s)])
     = (if lo \<le> run_len c hi s
        then (case rmatch (Lit (x # l) # ts) (last_of prev (take (run_len c hi s) s))
                 (drop (run_len c hi s) s) (caps @ [take (run_len c hi s) s]) of
                 None \<Rightarrow> None
               | Some (n, cs) \<Rightarrow> Some (run_len c hi s + n, cs))
        else None)"
    by (intro first_some_upto_last) simp
  then show ?thesis by (simp only: rmatch.simps Let_def)
qed

lemma rmatch_Rep_before_Lit:
  assumes "\<not> in_class c x"
  shows "rmatch (Rep c lo hi # Lit (x # l) # ts) prev s caps =
     (let k = run_len c hi s
      in if lo \<le> k
         then (case rmatch (Lit (x # l) # ts) (last_of prev (take k s)) (drop k s) caps of
                 None \<Rightarrow> None
               | Some (n, cs) \<Rightarrow> Some (k + n, cs))
         else None)"
proof -
  have "rmatch (Lit (x # l) # ts) (last_of prev (take k s)) (drop k s) caps = None"
    if "k < run_len c hi s" for k
  proof -
    from that have "k < length s" and "in_class c (s ! k)"
      using run_len_nth by blast+
    with assms have "s ! k \<noteq> x" by auto
    with \<open>k < length s\<close> show ?thesis by (rule rmatch_Lit_mismatch)
  qed
  then have "first_some
       (\<lambda>k. case rmatch (Lit (x # l) # ts) (last_of prev (take k s)) (drop k s) caps of
               None \<Rightarrow> None
             | Some (n, cs) \<Rightarrow> Some (k + n, cs))
       (rev [lo ..< Suc (run_len c hi s)])
     = (if lo \<le> run_len c hi s
        then (case rmatch (Lit (x # l) # ts) (last_of prev (take (run_len c hi s) s))
                 (drop (run_len c hi s) s) caps of
                 None \<Rightarrow> None
               | Some (n, cs) \<Rightarrow> Some (run_len c hi s + n, cs))
        else None)"
    by (intro first_some_upto_last) simp
  then show ?thesis by (simp only: rmatch.simps Let_def)
qed

definition rep_generic ::
  "cclass \<Rightarrow> nat \<Rightarrow> nat option \<Rightarrow> regex \<Rightarrow> char option \<Rightarrow> string \<Rightarrow> string list
     \<Rightarrow> (nat \<times> string list) option" where
  "rep_generic c lo hi ts prev s caps = rmatch (Rep c lo hi # ts) prev s caps"

definition grp_generic ::
  "cclass \<Rightarrow> nat \<Rightarrow> nat option \<Rightarrow> regex \<Rightarrow> char option \<Rightarrow> string \<Rightarrow> string list
     \<Rightarrow> (nat \<times> string list) option" where
  "grp_generic c lo hi ts prev s caps = rmatch (Grp c lo hi # ts) prev s caps"

lemma rep_generic_code [code]:
  "rep_generic c lo hi ts prev s caps = first_some
       (\<lambda>k. case rmatch ts (last_of prev (take k s)) (drop k s) caps of
               None \<Rightarrow> None
             | Some (n, cs) \<Rightarrow> Some (k + n, cs))
       (rev [lo ..< Suc (run_len c hi s)])"
  by (simp add: rep_generic_def)

lemma grp_generic_code [code]:
  "grp_generic c lo hi ts prev s caps = first_some
       (\<lambda>k. case rmatch ts (last_of prev (take k s)) (drop k s) (caps @ [take k s]) of
               None \<Rightarrow> None
             | Some (n, cs) \<Rightarrow> Some (k + n, cs))
       (rev [lo ..< Suc (run_len c hi s)])"
  by (simp add: grp_generic_def)

lemma rmatch_code [code]:
  "rmatch [] prev s caps = Some (0, caps)"
  "rmatch (Lit l # ts) prev s caps =
     (if starts_with s l
      then (case rmatch ts (last_of prev l) (drop (length l) s) caps of
              None \<Rightarrow> None
            | Some (n, cs) \<Rightarrow> Some (length l + n, cs))
      else None)"
  "rmatch (Rep c lo hi # ts) prev s caps =
     (case ts of
        Lit (x # l) # ts' \<Rightarrow>
          if in_class c x then rep_generic c lo hi ts prev s caps
          else (let k = run_len c hi s
                in if lo \<le> k
                   then (case rmatch ts (last_of prev (take k s)) (drop k s) caps of
                           None \<Rightarrow> None
                         | Some (n, cs) \<Rightarrow> Some (k + n, cs))
                   else None)
      | _ \<Rightarrow> rep_generic c lo hi ts prev s caps)"
  "rmatch (Grp c lo hi # ts) prev s caps =
     (case ts of
        Lit (x # l) # ts' \<Rightarrow>
          if in_class c x then grp_generic c lo hi ts prev s caps
          else (let k = run_len c hi s
                in if lo \<le> k
                   then (case rmatch ts (last_of prev (take k s)) (drop k s) (caps @ [take k s]) of
                           None \<Rightarrow> None
                         | Some (n, cs) \<Rightarrow> Some (k + n, cs))
                   else None)
      | _ \<Rightarrow> grp_generic c lo hi ts prev s caps)"
  "rmatch (Ref i # ts) prev s caps =
     (let w = group_text caps i
      in if starts_with s w
         then (case rmatch ts (last_of prev w) (drop (length w) s) caps of
                 None \<Rightarrow> None
               | Some (n, cs) \<Rightarrow> Some (length w + n, cs))
         else None)"
  "rmatch (WordB # ts) prev s caps =
     (if at_boundary prev s then rmatch ts prev s caps else None)"
proof -
  show "rmatch (Rep c lo hi # ts) prev s caps =
     (case ts of
        Lit (x # l) # ts' \<Rightarrow>
          if in_class c x then rep_generic c lo hi ts prev s caps
          else (let k = run_len c hi s
                in if lo \<le> k
                   then (case rmatch ts (last_of prev (take k s)) (drop k s) caps of
                           None \<Rightarrow> None
                         | Some (n, cs) \<Rightarrow> Some (k + n, cs))
                   else None)
      | _ \<Rightarrow> rep_generic c lo hi ts prev s caps)"
    by (auto simp add: rep_generic_def rmatch_Rep_before_Lit simp del: rmatch.simps
        split: list.split tok.split)
  show "rmatch (Grp c lo hi # ts) prev s caps =
     (case ts of
        Lit (x # l) # ts' \<Rightarrow>
          if in_class c x then grp_generic c lo hi ts prev s caps
          else (let k = run_len c hi s
                in if lo \<le> k
                   then (case rmatch ts (last_of prev (take k s)) (drop k s) (caps @ [take k s]) of
                           None \<Rightarrow> None
                         | Some (n, cs) \<Rightarrow> Some (k + n, cs))
                   else None)
      | _ \<Rightarrow> grp_generic c lo hi ts prev s caps)"
    by (auto simp add: grp_generic_def rmatch_Grp_before_Lit simp del: rmatch.simps
        split: list.split tok.split)
qed simp_all


section \<open>What the file operations do to the file system\<close>

lemma bak_neq [simp]: "p @ ''.bak'' \<noteq> p" "p \<noteq> p @ ''.bak''"
  by (auto dest: arg_cong [where f = length])

lemma patchFile_missing:
  "files w p = None \<Longrightarrow> patchFile p l w = (NotFound, w\<lparr>ops := ops w @ [ExistsSync p]\<rparr>)"
  by (simp add: patchFile_def existsSync_def)

lemma patchFile_present:
  "files w p = Some content \<Longrightarrow>
   patchFile p l w =
     (if already_patched content
      then (AlreadyPatched, w\<lparr>ops := ops w @ [ExistsSync p, ReadFileSync p]\<rparr>)
      else (case analyzeFile content l of
              Inl f \<Rightarrow> (Unrecognized f, w\<lparr>ops := ops w @ [ExistsSync p, ReadFileSync p]\<rparr>)
            | Inr a \<Rightarrow> apply_analysis a p content (w\<lparr>ops := ops w @ [ExistsSync p, ReadFileSync p]\<rparr>)))"
  by (simp add: patchFile_def existsSync_def readFileSync_def split: sum.split)

lemma apply_analysis_ambiguous:
  "split_count content (target a) \<noteq> 1 \<Longrightarrow>
   apply_analysis a p content w = (Ambiguous (split_count content (target a)), w)"
  by (simp add: apply_analysis_def Let_def)

lemma apply_analysis_unique:
  assumes "split_count content (target a) = 1" and "files w p = Some content"
  shows "apply_analysis a p content w =
     (Patched,
      w\<lparr>files := (files w)
           (p @ ''.bak'' \<mapsto> (case files w (p @ ''.bak'') of None \<Rightarrow> content | Some b \<Rightarrow> b),
            p \<mapsto> replace content (target a) (replacement a)),
        ops := ops w @ [ExistsSync (p @ ''.bak'')]
               @ (if files w (p @ ''.bak'') = None then [CopyFileSync p (p @ ''.bak'')] else [])
               @ [WriteFileSync p (replace content (target a) (replacement a)),
                  StatSync p, StatSync (p @ ''.bak'')]\<rparr>)"
proof (cases "files w (p @ ''.bak'')")
  case None
  with assms show ?thesis
    by (simp add: apply_analysis_def Let_def existsSync_def copyFileSync_def writeFileSync_def
        statSync_def)
next
  case (Some b)
  then have "(files w)(p @ ''.bak'' \<mapsto> b) = files w" by (simp add: fun_upd_idem)
  with assms Some show ?thesis
    by (simp add: apply_analysis_def Let_def existsSync_def copyFileSync_def writeFileSync_def
        statSync_def)
qed

definition written :: "world \<Rightarrow> string \<Rightarrow> string \<Rightarrow> string \<Rightarrow> world" where
  \<comment> \<open>the world after a run of \<^verbatim>\<open>patchFile\<close> on \<open>p\<close> that read \<open>content\<close> and wrote
      \<open>patched\<close>\<close>
  "written w p content patched =
     w\<lparr>files := (files w)
          (p @ ''.bak'' \<mapsto> (case files w (p @ ''.bak'') of None \<Rightarrow> content | Some b \<Rightarrow> b),
           p \<mapsto> patched),
       ops := ops w @ [ExistsSync p, ReadFileSync p, ExistsSync (p @ ''.bak'')]
              @ (if files w (p @ ''.bak'') = None then [CopyFileSync p (p @ ''.bak'')] else [])
              @ [WriteFileSync p patched, StatSync p, StatSync (p @ ''.bak'')]\<rparr>"

lemma patchFile_files_unchanged:
  "fst (patchFile p l w) \<noteq> Patched \<Longrightarrow> files (snd (patchFile p l w)) = files w"
proof (cases "files w p")
  case None
  then show ?thesis by (simp add: patchFile_missing)
next
  case (Some content)
  assume np: "fst (patchFile p l w) \<noteq> Patched"
  show ?thesis
  proof (cases "already_patched content")
    case True
    with Some show ?thesis by (simp add: patchFile_present)
  next
    case False
    show ?thesis
    proof (cases "analyzeFile content l")
      case (Inl f)
      with Some False show ?thesis by (simp add: patchFile_present)
    next
      case (Inr a)
      show ?thesis
      proof (cases "split_count content (target a) = 1")
        case True
        with Some False Inr np show ?thesis
          by (simp add: patchFile_present apply_analysis_unique)
      next
        case False
        with Some \<open>\<not> already_patched content\<close> Inr show ?thesis
          by (simp add: patchFile_present apply_analysis_ambiguous)
      qed
    qed
  qed
qed

lemma patchFile_ops_unpatched:
  "fst (patchFile p l w) \<noteq> Patched \<Longrightarrow>
   ops (snd (patchFile p l w)) = ops w @ [ExistsSync p]
   \<or> ops (snd (patchFile p l w)) = ops w @ [ExistsSync p, ReadFileSync p]"
proof (cases "files w p")
  case None
  then show ?thesis by (simp add: patchFile_missing)
next
  case (Some content)
  assume np: "fst (patchFile p l w) \<noteq> Patched"
  show ?thesis
  proof (cases "already_patched content")
    case True
    with Some show ?thesis by (simp add: patchFile_present)
  next
    case False
    show ?thesis
    proof (cases "analyzeFile content l")
      case (Inl f)
      with Some False show ?thesis by (simp add: patchFile_present)
    next
      case (Inr a)
      show ?thesis
      proof (cases "split_count content (target a) = 1")
        case True
        with Some False Inr np show ?thesis
          by (simp add: patchFile_present apply_analysis_unique)
      next
        case False
        with Some \<open>\<not> already_patched content\<close> Inr show ?thesis
          by (simp add: patchFile_present apply_analysis_ambiguous)
      qed
    qed
  qed
qed

lemma patchFile_patched:
  assumes "fst (patchFile p l w) = Patched"
  shows "\<exists>content a.
     files w p = Some content \<and> \<not> already_patched content \<and> analyzeFile content l = Inr a
     \<and> split_count content (target a) = 1
     \<and> snd (patchFile p l w) =
        written w p content (replace content (target a) (replacement a))"
proof (cases "files w p")
  case None
  with assms show ?thesis by (simp add: patchFile_missing)
next
  case (Some content)
  show ?thesis
  proof (cases "already_patched content")
    case True
    with Some assms show ?thesis by (simp add: patchFile_present)
  next
    case False
    show ?thesis
    proof (cases "analyzeFile content l")
      case (Inl f)
      with Some False assms show ?thesis by (simp add: patchFile_present)
    next
      case (Inr a)
      show ?thesis
      proof (cases "split_count content (target a) = 1")
        case True
        with Some \<open>\<not> already_patched content\<close> Inr show ?thesis
          by (simp add: patchFile_present apply_analysis_unique written_def)
      next
        case False
        with Some \<open>\<not> already_patched content\<close> Inr assms show ?thesis
          by (simp add: patchFile_present apply_analysis_ambiguous)
      qed
    qed
  qed
qed

lemma patchFile_keeps_backup:
  assumes "files w (p @ ''.bak'') = Some b"
  shows "files (snd (patchFile p l w)) (p @ ''.bak'') = Some b"
proof (cases "fst (patchFile p l w) = Patched")
  case True
  from patchFile_patched [OF this] obtain content and a :: analysis where
    "snd (patchFile p l w) =
        written w p content (replace content (target a) (replacement a))"
    by blast
  with assms show ?thesis by (simp add: written_def)
next
  case False
  then have "files (snd (patchFile p l w)) = files w" by (rule patchFile_files_unchanged)
  with assms show ?thesis by simp
qed

lemma patchFile_never_throws: "fst (patchFile p l w) \<noteq> Threw"
proof (cases "fst (patchFile p l w) = Patched")
  case True
  then show ?thesis by simp
next
  case False
  show ?thesis
  proof (cases "files w p")
    case None
    then show ?thesis by (simp add: patchFile_missing)
  next
    case (Some content)
    show ?thesis
    proof (cases "already_patched content")
      case True
      with Some show ?thesis by (simp add: patchFile_present)
    next
      case np: False
      show ?thesis
      proof (cases "analyzeFile content l")
        case (Inl f)
        with Some np show ?thesis by (simp add: patchFile_present)
      next
        case (Inr a)
        show ?thesis
        proof (cases "split_count content (target a) = 1")
          case True
          with Some np Inr show ?thesis
            by (simp add: patchFile_present apply_analysis_unique)
        next
          case False
          with Some np Inr show ?thesis
            by (simp add: patchFile_present apply_analysis_ambiguous)
        qed
      qed
    qed
  qed
qed

lemma revertFile_with_backup:
  "files w (p @ ''.bak'') = Some b \<Longrightarrow>
   revertFile p l w =
     (Restored, w\<lparr>files := (files w)(p \<mapsto> b),
                  ops := ops w @ [ExistsSync (p @ ''.bak''), CopyFileSync (p @ ''.bak'') p]\<rparr>)"
  by (simp add: revertFile_def Let_def existsSync_def copyFileSync_def)

lemma revertFile_no_backup:
  "files w (p @ ''.bak'') = None \<Longrightarrow>
   revertFile p l w = (Skipped, w\<lparr>ops := ops w @ [ExistsSync (p @ ''.bak'')]\<rparr>)"
  by (simp add: revertFile_def Let_def existsSync_def)

lemma revertFile_never_throws: "fst (revertFile p l w) \<noteq> RevertThrew"
  by (cases "files w (p @ ''.bak'')") (simp_all add: revertFile_with_backup revertFile_no_backup)

lemma checkFile_never_throws: "fst (checkFile p l w) \<noteq> CheckThrew"
  by (cases "files w p")
     (auto simp add: checkFile_def Let_def existsSync_def readFileSync_def split: sum.splits)

datatype event = RunApply string | EditLive string

fun run_events :: "string \<Rightarrow> event list \<Rightarrow> world \<Rightarrow> world" where
  \<comment> \<open>runs of \<^verbatim>\<open>patchFile\<close> on the file at \<open>p\<close>, and changes of that file made by others
      between the runs\<close>
  "run_events p [] w = w"
| "run_events p (RunApply l # es) w = run_events p es (snd (patchFile p l w))"
| "run_events p (EditLive c # es) w = run_events p es (w\<lparr>files := (files w)(p \<mapsto> c)\<rparr>)"

lemma run_events_keeps_backup:
  "files w (p @ ''.bak'') = Some b \<Longrightarrow> files (run_events p es w) (p @ ''.bak'') = Some b"
proof (induction es arbitrary: w)
  case Nil
  then show ?case by simp
next
  case (Cons e es)
  show ?case
  proof (cases e)
    case (RunApply l)
    from Cons.prems have "files (snd (patchFile p l w)) (p @ ''.bak'') = Some b"
      by (rule patchFile_keeps_backup)
    then have "files (run_events p es (snd (patchFile p l w))) (p @ ''.bak'') = Some b"
      by (rule Cons.IH)
    with RunApply show ?thesis by simp
  next
    case (EditLive c)
    from Cons.prems have "files (w\<lparr>files := (files w)(p \<mapsto> c)\<rparr>) (p @ ''.bak'') = Some b"
      by simp
    then have "files (run_events p es (w\<lparr>files := (files w)(p \<mapsto> c)\<rparr>)) (p @ ''.bak'') = Some b"
      by (rule Cons.IH)
    with EditLive show ?thesis by simp
  qed
qed

lemma every_patchFile_never_throws: "Threw \<notin> set (fst (every_patchFile fs w))"
proof (induction fs arbitrary: w)
  case Nil
  then show ?case by simp
next
  case (Cons f fs)
  obtain p l where f: "f = (p, l)" by (cases f)
  obtain out w1 where r: "patchFile p l w = (out, w1)" by (cases "patchFile p l w")
  then have nt: "out \<noteq> Threw" using patchFile_never_throws [of p l w] by simp
  show ?case
  proof (cases "returned out = Some True")
    case True
    obtain outs w2 where r2: "every_patchFile fs w1 = (outs, w2)"
      by (cases "every_patchFile fs w1")
    with Cons.IH [of w1] have "Threw \<notin> set outs" by simp
    with f r r2 True nt show ?thesis by simp
  next
    case False
    with f r nt show ?thesis by simp
  qed
qed

lemma forEach_revertFile_never_throws: "RevertThrew \<notin> set (fst (forEach_revertFile fs w))"
proof (induction fs arbitrary: w)
  case Nil
  then show ?case by simp
next
  case (Cons f fs)
  obtain p l where f: "f = (p, l)" by (cases f)
  obtain out w1 where r: "revertFile p l w = (out, w1)" by (cases "revertFile p l w")
  then have nt: "out \<noteq> RevertThrew" using revertFile_never_throws [of p l w] by simp
  obtain outs w2 where r2: "forEach_revertFile fs w1 = (outs, w2)"
    by (cases "forEach_revertFile fs w1")
  with Cons.IH [of w1] have "RevertThrew \<notin> set outs" by simp
  with f r r2 nt show ?case by simp
qed

lemma forEach_checkFile_never_throws: "CheckThrew \<notin> set (fst (forEach_checkFile fs w))"
proof (induction fs arbitrary: w)
  case Nil
  then show ?case by simp
next
  case (Cons f fs)
  obtain p l where f: "f = (p, l)" by (cases f)
  obtain out w1 where r: "checkFile p l w = (out, w1)" by (cases "checkFile p l w")
  then have nt: "out \<noteq> CheckThrew" using checkFile_never_throws [of p l w] by simp
  obtain outs w2 where r2: "forEach_checkFile fs w1 = (outs, w2)"
    by (cases "forEach_checkFile fs w1")
  with Cons.IH [of w1] have "CheckThrew \<notin> set outs" by simp
  with f r r2 nt show ?case by simp
qed

lemma every_patchFile_stops:
  "returned (fst (patchFile p l w)) \<noteq> Some True \<Longrightarrow>
   every_patchFile ((p, l) # fs) w = ([fst (patchFile p l w)], snd (patchFile p l w))"
  by (cases "patchFile p l w") simp


section \<open>A sample bundle\<close>

text \<open>
  A text with everything the extractor looks for: the policy variable, the secure-mode
  variable, a hook called with a function that returns a cleanup, and the handler of the
  policy dropdown. It is the example of the project's documentation, shortened.
\<close>

definition sample_context :: string where
  "sample_context =
     ''u=h?.terminalAutoExecutionPolicy??Dhe.OFF,d=h?.secureModeEnabled??!1;mn(()=>{f();return ()=>{g()}},[]);''"

definition sample_handler :: string where
  "sample_handler =
     ''y=Mt(_=>{h?.setTerminalAutoExecutionPolicy?.(_),_===Dhe.EAGER&&b(!0)},[])''"

definition sample_text :: string where
  "sample_text = sample_context @ sample_handler"

definition sample_world :: world where
  \<comment> \<open>the sample bundle as the only file, never patched before\<close>
  "sample_world = \<lparr>files = [''main.js'' \<mapsto> sample_text], ops = []\<rparr>"

section \<open>The claims\<close>

text \<open>
  C2 (round trip). Whatever text \<open>T\<close> the live file holds, when no backup exists, running
  \<^verbatim>\<open>patchFile\<close> and then \<^verbatim>\<open>revertFile\<close> leaves the live file with \<open>T\<close> again. This
  covers the texts with exactly one instance of the handler shape and its context, where
  the first run writes the backup and the patched file.
\<close>

theorem apply_then_revert_restores:
  assumes "files w p = Some T" and "files w (p @ ''.bak'') = None"
  shows "files (snd (revertFile p l' (snd (patchFile p l w)))) p = Some T"
proof (cases "fst (patchFile p l w) = Patched")
  case True
  from patchFile_patched [OF this] obtain content and a :: analysis where
    "files w p = Some content"
    and w': "snd (patchFile p l w) = written w p content (replace content (target a) (replacement a))"
    by blast
  with assms have "content = T" by simp
  with w' assms have "files (snd (patchFile p l w)) (p @ ''.bak'') = Some T"
    by (simp add: written_def)
  then show ?thesis by (simp add: revertFile_with_backup)
next
  case False
  then have same: "files (snd (patchFile p l w)) = files w"
    by (rule patchFile_files_unchanged)
  with assms have "files (snd (patchFile p l w)) (p @ ''.bak'') = None" by simp
  then show ?thesis using same assms by (simp add: revertFile_no_backup)
qed

theorem apply_then_revert_restores_witness:
  "files sample_world ''main.js'' = Some sample_text
   \<and> files sample_world (''main.js'' @ ''.bak'') = None
   \<and> files (snd (revertFile ''main.js'' ''workbench''
                 (snd (patchFile ''main.js'' ''workbench'' sample_world)))) ''main.js''
       = Some sample_text"
proof -
  have live: "files sample_world ''main.js'' = Some sample_text"
    by (simp add: sample_world_def)
  have nobak: "files sample_world (''main.js'' @ ''.bak'') = None"
    by (simp add: sample_world_def)
  from apply_then_revert_restores [OF live nobak] live nobak show ?thesis by blast
qed


end
